theory Spec2Isabelle
  imports Complex_Main "HOL-Library.Word"
begin

section \<open>Numbers\<close>

text \<open>
  The program computes with JavaScript numbers and GLSL floats. Finite values are modelled
  as exact reals (no rounding). Where a claim depends on a division by zero, the special
  values of IEEE 754 are modelled as well: a \<open>number\<close> is a finite real, an infinity or
  NaN. Signed zeros are not modelled: a zero divisor counts as \<open>+0\<close>.
\<close>

datatype number = Fin real | PInf | NInf | NaN

fun n_add :: "number \<Rightarrow> number \<Rightarrow> number" where
  "n_add (Fin a) (Fin b) = Fin (a + b)"
| "n_add NaN _ = NaN"
| "n_add _ NaN = NaN"
| "n_add PInf NInf = NaN"
| "n_add NInf PInf = NaN"
| "n_add PInf _ = PInf"
| "n_add _ PInf = PInf"
| "n_add NInf _ = NInf"
| "n_add _ NInf = NInf"

fun n_neg :: "number \<Rightarrow> number" where
  "n_neg (Fin a) = Fin (- a)"
| "n_neg PInf = NInf"
| "n_neg NInf = PInf"
| "n_neg NaN = NaN"

definition n_sub :: "number \<Rightarrow> number \<Rightarrow> number" where
  "n_sub a b = n_add a (n_neg b)"

fun n_mul :: "number \<Rightarrow> number \<Rightarrow> number" where
  "n_mul (Fin a) (Fin b) = Fin (a * b)"
| "n_mul NaN _ = NaN"
| "n_mul _ NaN = NaN"
| "n_mul (Fin a) PInf = (if a = 0 then NaN else if 0 < a then PInf else NInf)"
| "n_mul (Fin a) NInf = (if a = 0 then NaN else if 0 < a then NInf else PInf)"
| "n_mul PInf (Fin b) = (if b = 0 then NaN else if 0 < b then PInf else NInf)"
| "n_mul NInf (Fin b) = (if b = 0 then NaN else if 0 < b then NInf else PInf)"
| "n_mul PInf PInf = PInf"
| "n_mul PInf NInf = NInf"
| "n_mul NInf PInf = NInf"
| "n_mul NInf NInf = PInf"

fun n_div :: "number \<Rightarrow> number \<Rightarrow> number" where
  "n_div (Fin a) (Fin b) =
     (if b \<noteq> 0 then Fin (a / b)
      else if a = 0 then NaN else if 0 < a then PInf else NInf)"
| "n_div NaN _ = NaN"
| "n_div _ NaN = NaN"
| "n_div (Fin a) PInf = Fin 0"
| "n_div (Fin a) NInf = Fin 0"
| "n_div PInf (Fin b) = (if 0 \<le> b then PInf else NInf)"
| "n_div NInf (Fin b) = (if 0 \<le> b then NInf else PInf)"
| "n_div PInf PInf = NaN"
| "n_div PInf NInf = NaN"
| "n_div NInf PInf = NaN"
| "n_div NInf NInf = NaN"

text \<open>\<open>n_gt a b\<close> is the comparison \<open>a > b\<close>; every comparison with NaN is false.\<close>

fun n_gt :: "number \<Rightarrow> number \<Rightarrow> bool" where
  "n_gt (Fin a) (Fin b) = (b < a)"
| "n_gt NaN _ = False"
| "n_gt _ NaN = False"
| "n_gt PInf PInf = False"
| "n_gt PInf _ = True"
| "n_gt NInf _ = False"
| "n_gt (Fin a) NInf = True"
| "n_gt (Fin a) PInf = False"

fun n_sqrt :: "number \<Rightarrow> number" where
  "n_sqrt (Fin a) = (if a < 0 then NaN else Fin (sqrt a))"
| "n_sqrt PInf = PInf"
| "n_sqrt NInf = NaN"
| "n_sqrt NaN = NaN"

fun n_floor :: "number \<Rightarrow> number" where
  "n_floor (Fin a) = Fin (of_int \<lfloor>a\<rfloor>)"
| "n_floor PInf = PInf"
| "n_floor NInf = NInf"
| "n_floor NaN = NaN"

fun n_cos :: "number \<Rightarrow> number" where
  "n_cos (Fin a) = Fin (cos a)"
| "n_cos PInf = NaN"
| "n_cos NInf = NaN"
| "n_cos NaN = NaN"

fun n_sin :: "number \<Rightarrow> number" where
  "n_sin (Fin a) = Fin (sin a)"
| "n_sin PInf = NaN"
| "n_sin NInf = NaN"
| "n_sin NaN = NaN"

text \<open>
  Rounding of a real to a double: to the nearest number with a significand of 53 bits,
  ties to the even significand. The exponent range is not bounded (no overflow, no
  subnormal numbers).
\<close>

definition round_half_even :: "real \<Rightarrow> int" where
  "round_half_even x =
     (let f = \<lfloor>x\<rfloor>; r = x - of_int f
      in if r < 1 / 2 then f
         else if 1 / 2 < r then f + 1
         else if even f then f else f + 1)"

text \<open>The unit in the last place of the doubles in the binade of \<open>x > 0\<close>.\<close>

definition ulp :: "real \<Rightarrow> real" where
  "ulp x = 2 powr (of_int \<lfloor>log 2 x\<rfloor> - 52)"

definition fl :: "real \<Rightarrow> real" where
  "fl x =
     (if x = 0 then 0
      else if 0 < x then ulp x * of_int (round_half_even (x / ulp x))
      else - (ulp (- x) * of_int (round_half_even (- x / ulp (- x)))))"

section \<open>GLSL built-ins\<close>

text \<open>
  \<open>atan(y, x)\<close> is the angle of the point \<open>(x, y)\<close>, in \<open>(-\<pi>, \<pi>]\<close>. GLSL leaves the
  result undefined when both arguments are zero: the value an implementation returns
  there is the parameter \<open>u\<close>.
\<close>

definition glsl_atan :: "real \<Rightarrow> real \<Rightarrow> real \<Rightarrow> real" where
  "glsl_atan u y x =
     (if x = 0 \<and> y = 0 then u
      else if 0 < x then arctan (y / x)
      else if x < 0 then (if 0 \<le> y then arctan (y / x) + pi else arctan (y / x) - pi)
      else if 0 < y then pi / 2 else - (pi / 2))"

text \<open>\<open>mod(x, y)\<close> is \<open>x - y * floor(x / y)\<close>.\<close>

definition glsl_mod :: "real \<Rightarrow> real \<Rightarrow> real" where
  "glsl_mod x y = x - y * of_int \<lfloor>x / y\<rfloor>"

definition glsl_length :: "real \<times> real \<Rightarrow> real" where
  "glsl_length v = sqrt (fst v * fst v + snd v * snd v)"

text \<open>The same built-ins on numbers with special values.\<close>

fun n_atan :: "number \<Rightarrow> number \<Rightarrow> number \<Rightarrow> number" where
  "n_atan u (Fin y) (Fin x) = (if x = 0 \<and> y = 0 then u else Fin (glsl_atan 0 y x))"
| "n_atan u NaN _ = NaN"
| "n_atan u _ NaN = NaN"
| "n_atan u (Fin y) PInf = Fin 0"
| "n_atan u (Fin y) NInf = (if 0 \<le> y then Fin pi else Fin (- pi))"
| "n_atan u PInf (Fin x) = Fin (pi / 2)"
| "n_atan u NInf (Fin x) = Fin (- (pi / 2))"
| "n_atan u PInf PInf = Fin (pi / 4)"
| "n_atan u PInf NInf = Fin (3 * pi / 4)"
| "n_atan u NInf PInf = Fin (- (pi / 4))"
| "n_atan u NInf NInf = Fin (- (3 * pi / 4))"

definition n_mod :: "number \<Rightarrow> number \<Rightarrow> number" where
  "n_mod x y = n_sub x (n_mul y (n_floor (n_div x y)))"

definition n_length :: "number \<times> number \<Rightarrow> number" where
  "n_length v = n_sqrt (n_add (n_mul (fst v) (fst v)) (n_mul (snd v) (snd v)))"

section \<open>Audio level (\<open>useAudioAnalyzer\<close>)\<close>

type_synonym byte = "8 word"

text \<open>
  \<open>Math.pow(normalized, 0.6)\<close>, with the exponent as a parameter. The base is an average
  of bytes divided by 255, so it is never negative, and the exponent is positive: there
  \<open>Math.pow\<close> is \<open>powr\<close> (they differ at exponent 0 and on a negative base).
\<close>

definition boosted :: "real \<Rightarrow> real \<Rightarrow> real" where
  "boosted gamma normalized = normalized powr gamma"

definition boost :: "real \<Rightarrow> real" where
  "boost average = (let normalized = average / 255 in boosted 0.6 normalized)"

text \<open>
  The body of \<open>updateAudioData\<close>: the new audio level for the bytes the analyser wrote.
  An empty array makes the average \<open>0 / 0\<close>, which is NaN: the result is \<open>None\<close> then.
\<close>

definition updateAudioData :: "byte list \<Rightarrow> real option" where
  "updateAudioData dataArray =
     (if length dataArray = 0 then None
      else
        (let average = real (sum_list (map unat dataArray)) / real (length dataArray)
         in Some (boost average)))"

section \<open>Cubes (\<open>SingleCube\<close>, \<open>RotatingCubes\<close>)\<close>

record cube =
  rotation_x :: real
  rotation_y :: real
  rotation_z :: real
  scale :: real
  tubeRadius :: real
  smoothedScale :: real
  smoothedRadius :: real

definition basePeriod :: real where
  "basePeriod = 60"

definition minPeriod :: real where
  "minPeriod = 15"

definition oscillationPeriod :: "real \<Rightarrow> real" where
  "oscillationPeriod audioLevel =
     (let audioPeriodReduction = audioLevel * (basePeriod - minPeriod)
      in basePeriod - audioPeriodReduction)"

definition phase :: "nat \<Rightarrow> real" where
  "phase index = (real index / 20) * pi * 2"

definition speedModulation :: "real \<Rightarrow> real \<Rightarrow> nat \<Rightarrow> real" where
  "speedModulation time audioLevel index =
     sin ((time / oscillationPeriod audioLevel) * pi * 2 + phase index)"

definition baseSpeed :: "real \<Rightarrow> real \<Rightarrow> real \<Rightarrow> nat \<Rightarrow> real" where
  "baseSpeed time rotationSpeed audioLevel index =
     rotationSpeed * speedModulation time audioLevel index"

definition audioBoostSpeed :: "real \<Rightarrow> real \<Rightarrow> real" where
  "audioBoostSpeed rotationSpeed audioLevel = audioLevel * rotationSpeed * 2"

definition effectiveSpeed :: "real \<Rightarrow> real \<Rightarrow> real \<Rightarrow> nat \<Rightarrow> real" where
  "effectiveSpeed time rotationSpeed audioLevel index =
     baseSpeed time rotationSpeed audioLevel index + audioBoostSpeed rotationSpeed audioLevel"

text \<open>
  \<open>Math.floor((index / 20) * frequencyData.length)\<close>. The floor is where rounding changes
  the result, so the quotient and the product are rounded to doubles as JavaScript does:
  \<open>index\<close>, 20 and the length are exact doubles.
\<close>

definition freqIndex :: "nat \<Rightarrow> nat \<Rightarrow> int" where
  "freqIndex index len = \<lfloor>fl (fl (real index / 20) * real len)\<rfloor>"

definition smoothingFactor :: real where
  "smoothingFactor = 0.1"

text \<open>One smoothing update, \<open>x += (target - x) * smoothingFactor\<close>.\<close>

definition lerp :: "real \<Rightarrow> real \<Rightarrow> real" where
  "lerp x target = x + (target - x) * smoothingFactor"

definition targetScale :: "real \<Rightarrow> real" where
  "targetScale frequency = 1 + (frequency * 0.6)"

definition targetRadius :: "real \<Rightarrow> real" where
  "targetRadius frequency =
     (let baseRadius = 0.015; maxRadius = 0.06
      in baseRadius + (frequency * (maxRadius - baseRadius)))"

text \<open>
  The frame callback of one cube. \<open>frequencyData\<close> is \<open>None\<close> when the prop is null or
  undefined. The result is \<open>None\<close> where JavaScript would put NaN into the cube: a zero
  oscillation period (a division by zero under \<open>Math.sin\<close>), or a read of \<open>frequencyData\<close>
  past its end (\<open>undefined / 255\<close>).
\<close>

definition useFrame ::
  "real \<Rightarrow> real \<Rightarrow> real \<Rightarrow> real \<Rightarrow> byte list option \<Rightarrow> nat \<Rightarrow> cube \<Rightarrow> cube option" where
  "useFrame time delta rotationSpeed audioLevel frequencyData index c =
     (if oscillationPeriod audioLevel = 0 then None
      else
        (let speed = effectiveSpeed time rotationSpeed audioLevel index;
             c1 = c\<lparr>rotation_x := rotation_x c + delta * speed,
                    rotation_y := rotation_y c + delta * speed,
                    rotation_z := rotation_z c + delta * speed\<rparr>
         in case frequencyData of
              None \<Rightarrow> Some c1
            | Some fd \<Rightarrow>
                if length fd > 0 then
                  (let i = nat (freqIndex index (length fd))
                   in if i < length fd then
                        (let frequency = real (unat (fd ! i)) / 255;
                             s = lerp (smoothedScale c1) (targetScale frequency);
                             r = lerp (smoothedRadius c1) (targetRadius frequency)
                         in Some (c1\<lparr>smoothedScale := s, smoothedRadius := r,
                                      scale := s, tubeRadius := r\<rparr>))
                      else None)
                else Some c1))"

text \<open>
  Successive frame callbacks of one cube with unchanged props, one per pair of elapsed
  time and delta.
\<close>

fun frames ::
  "(real \<times> real) list \<Rightarrow> real \<Rightarrow> real \<Rightarrow> byte list option \<Rightarrow> nat \<Rightarrow> cube \<Rightarrow> cube option" where
  "frames [] rotationSpeed audioLevel frequencyData index c = Some c"
| "frames ((time, delta) # ts) rotationSpeed audioLevel frequencyData index c =
     (case useFrame time delta rotationSpeed audioLevel frequencyData index c of
        None \<Rightarrow> None
      | Some c' \<Rightarrow> frames ts rotationSpeed audioLevel frequencyData index c')"

definition cubeCount :: nat where
  "cubeCount = 20"

text \<open>The \<open>rotationSpeed\<close> prop that \<open>RotatingCubes\<close> gives to the cube at \<open>index\<close>.\<close>

definition rotationSpeed :: "nat \<Rightarrow> real" where
  "rotationSpeed index =
     (let startRotationSpeed = 0.1; rotationSpeedIncrement = 0.01
      in startRotationSpeed + real index * rotationSpeedIncrement)"

section \<open>Kaleidoscope (\<open>KaleidoscopeEffect\<close>)\<close>

text \<open>\<open>update\<close>: the aspect uniform for a canvas of \<open>width\<close> by \<open>height\<close> pixels.\<close>

definition update :: "nat \<Rightarrow> nat \<Rightarrow> number" where
  "update width height = n_div (Fin (real width)) (Fin (real height))"

text \<open>The two aspect corrections of the shader, on the centred coordinate.\<close>

definition aspect_correction :: "real \<Rightarrow> real \<times> real \<Rightarrow> real \<times> real" where
  "aspect_correction aspect coord =
     (if 1 < aspect then (fst coord * aspect, snd coord)
      else (fst coord, snd coord / aspect))"

definition reverse_aspect_correction :: "real \<Rightarrow> real \<times> real \<Rightarrow> real \<times> real" where
  "reverse_aspect_correction aspect newCoord =
     (if 1 < aspect then (fst newCoord / aspect, snd newCoord)
      else (fst newCoord, snd newCoord * aspect))"

text \<open>The wrap of the angle to one double segment and the mirror of its second half.\<close>

definition wrapAngle :: "real \<Rightarrow> real \<Rightarrow> real" where
  "wrapAngle segmentAngle angle =
     (let wrappedAngle = glsl_mod angle (segmentAngle * 2)
      in if segmentAngle < wrappedAngle then segmentAngle * 2 - wrappedAngle
         else wrappedAngle)"

definition n_wrapAngle :: "number \<Rightarrow> number \<Rightarrow> number" where
  "n_wrapAngle segmentAngle angle =
     (let wrappedAngle = n_mod angle (n_mul segmentAngle (Fin 2))
      in if n_gt wrappedAngle segmentAngle
         then n_sub (n_mul segmentAngle (Fin 2)) wrappedAngle
         else wrappedAngle)"

text \<open>
  The angle of one segment, \<open>2.0 * 3.14159265359 / segments\<close>. The literal is the shader's
  \<open>\<pi>\<close>: as a float it is the same number as the \<open>\<pi>\<close> that bounds the results of \<open>atan\<close>,
  so the model takes \<open>\<pi>\<close> for both.
\<close>

definition segmentAngle :: "real \<Rightarrow> real" where
  "segmentAngle segments = 2 * pi / segments"

text \<open>
  \<open>mainUv\<close> of the fragment shader on finite values, with the uniforms \<open>segments\<close> and
  \<open>aspect\<close> as arguments.
\<close>

definition mainUv :: "real \<Rightarrow> real \<Rightarrow> real \<Rightarrow> real \<times> real \<Rightarrow> real \<times> real" where
  "mainUv u segments aspect uv =
     (let center = (0.5, 0.5);
          coord = aspect_correction aspect (fst uv - fst center, snd uv - snd center);
          radius = glsl_length coord;
          angle = glsl_atan u (snd coord) (fst coord);
          wrappedAngle = wrapAngle (segmentAngle segments) angle;
          newCoord = (cos wrappedAngle * radius, sin wrappedAngle * radius);
          newCoord = reverse_aspect_correction aspect newCoord
      in (fst newCoord + fst center, snd newCoord + snd center))"


text \<open>
  The mirror image of \<open>uv\<close> across the line through the centre at angle
  \<open>k * (2 * \<pi> / segments)\<close>, the \<open>k\<close>-th wedge boundary.
\<close>

definition mirrorImage :: "real \<Rightarrow> int \<Rightarrow> real \<times> real \<Rightarrow> real \<times> real" where
  "mirrorImage segments k uv =
     (let phi = of_int k * (2 * pi / segments);
          cx = fst uv - 0.5;
          cy = snd uv - 0.5
      in (0.5 + (cx * cos (2 * phi) + cy * sin (2 * phi)),
          0.5 + (cx * sin (2 * phi) - cy * cos (2 * phi))))"

text \<open>\<open>mainUv\<close> with the special values of IEEE 754.\<close>

definition n_aspect_correction :: "number \<Rightarrow> number \<times> number \<Rightarrow> number \<times> number" where
  "n_aspect_correction aspect coord =
     (if n_gt aspect (Fin 1) then (n_mul (fst coord) aspect, snd coord)
      else (fst coord, n_div (snd coord) aspect))"

definition n_reverse_aspect_correction ::
  "number \<Rightarrow> number \<times> number \<Rightarrow> number \<times> number" where
  "n_reverse_aspect_correction aspect newCoord =
     (if n_gt aspect (Fin 1) then (n_div (fst newCoord) aspect, snd newCoord)
      else (fst newCoord, n_mul (snd newCoord) aspect))"

definition n_segmentAngle :: "number \<Rightarrow> number" where
  "n_segmentAngle segments = n_div (n_mul (Fin 2) (Fin pi)) segments"

definition n_mainUv ::
  "number \<Rightarrow> number \<Rightarrow> number \<Rightarrow> number \<times> number \<Rightarrow> number \<times> number" where
  "n_mainUv u segments aspect uv =
     (let center = (Fin 0.5, Fin 0.5);
          coord = n_aspect_correction aspect
                    (n_sub (fst uv) (fst center), n_sub (snd uv) (snd center));
          radius = n_length coord;
          angle = n_atan u (snd coord) (fst coord);
          wrappedAngle = n_wrapAngle (n_segmentAngle segments) angle;
          newCoord = (n_mul (n_cos wrappedAngle) radius, n_mul (n_sin wrappedAngle) radius);
          newCoord = n_reverse_aspect_correction aspect newCoord
      in (n_add (fst newCoord) (fst center), n_add (snd newCoord) (snd center)))"

section \<open>Period of the oscillation\<close>

lemma oscillationPeriod_eq: "oscillationPeriod r = 60 - r * 45"
  by (simp add: oscillationPeriod_def basePeriod_def minPeriod_def)

text \<open>
  C5. For every reactivity scalar \<open>r\<close> in \<open>[0, 1]\<close> the oscillation period lies between
  \<open>minPeriod\<close> = 15 and \<open>basePeriod\<close> = 60; it is \<open>basePeriod\<close> at 0 and \<open>minPeriod\<close> at 1;
  it is never below the positive floor \<open>minPeriod\<close>, so \<open>time / oscillationPeriod\<close> never
  divides by zero.
\<close>

theorem oscillationPeriod_bounds:
  assumes "0 \<le> r" and "r \<le> 1"
  shows "minPeriod \<le> oscillationPeriod r \<and> oscillationPeriod r \<le> basePeriod
         \<and> oscillationPeriod 0 = basePeriod \<and> oscillationPeriod 1 = minPeriod
         \<and> basePeriod = 60 \<and> minPeriod = 15
         \<and> 0 < minPeriod \<and> oscillationPeriod r \<noteq> 0"
  using assms by (simp add: oscillationPeriod_eq basePeriod_def minPeriod_def)

theorem oscillationPeriod_bounds_witness:
  "(0::real) \<le> 1 / 2 \<and> (1 / 2 :: real) \<le> 1
   \<and> minPeriod \<le> oscillationPeriod (1 / 2) \<and> oscillationPeriod (1 / 2) \<le> basePeriod
   \<and> oscillationPeriod (1 / 2) = 75 / 2"
  using oscillationPeriod_bounds [of "1 / 2"] by (simp add: oscillationPeriod_eq)

section \<open>Loudness boost\<close>

lemma boost_eq: "boost raw = (raw / 255) powr 0.6"
  by (simp add: boost_def boosted_def)

text \<open>
  C4. For every raw average in \<open>[0, 255]\<close>, \<open>boost\<close> is \<open>(rawAverage / 255) ^ 0.6\<close> and
  lies in \<open>[0, 1]\<close>; \<open>boost 0 = 0\<close> and \<open>boost 255 = 1\<close>; \<open>boost\<close> is monotonically
  non-decreasing on \<open>[0, 255]\<close>; and for every exponent \<open>gamma\<close> in \<open>(0, 1)\<close> the boosted
  value is at least the normalized value, for every normalized value in \<open>(0, 1)\<close>.
\<close>

theorem boost_range:
  fixes rawAverage a b gamma normalized :: real
  shows "(0 \<le> rawAverage \<and> rawAverage \<le> 255 \<longrightarrow>
            boost rawAverage = (rawAverage / 255) powr 0.6
            \<and> 0 \<le> boost rawAverage \<and> boost rawAverage \<le> 1)
         \<and> boost 0 = 0 \<and> boost 255 = 1
         \<and> (0 \<le> a \<and> a \<le> b \<and> b \<le> 255 \<longrightarrow> boost a \<le> boost b)
         \<and> (0 < gamma \<and> gamma < 1 \<longrightarrow>
              boosted gamma 0 = 0 \<and> boosted gamma 1 = 1
              \<and> (0 < normalized \<and> normalized < 1 \<longrightarrow>
                    normalized \<le> boosted gamma normalized))"
proof -
  have range: "0 \<le> boost rawAverage \<and> boost rawAverage \<le> 1"
    if "0 \<le> rawAverage" "rawAverage \<le> 255"
  proof -
    have "\<bar>rawAverage / 255\<bar> \<le> 1" using that by simp
    then have "(rawAverage / 255) powr 0.6 \<le> 1" by (intro powr_le1) simp_all
    then show ?thesis by (simp add: boost_eq)
  qed
  have mono: "boost a \<le> boost b" if "0 \<le> a" "a \<le> b"
    unfolding boost_eq using that by (intro powr_mono2) (simp_all add: divide_right_mono)
  have above: "normalized \<le> boosted gamma normalized"
    if "0 < gamma" "gamma < 1" "0 < normalized" "normalized < 1"
  proof -
    have "normalized powr 1 \<le> normalized powr gamma"
      using that by (intro powr_mono') simp_all
    then show ?thesis using that by (simp add: boosted_def)
  qed
  show ?thesis
    using range mono above by (simp add: boost_eq boosted_def)
qed

theorem boost_range_witness:
  "(0::real) \<le> 51 \<and> (51::real) \<le> 102 \<and> (102::real) \<le> 255
   \<and> 0 \<le> boost 51 \<and> boost 51 \<le> 1 \<and> boost 51 \<le> boost 102
   \<and> (0::real) < 1 / 2 \<and> (1 / 2 :: real) < 1 \<and> (0::real) < 1 / 4 \<and> (1 / 4 :: real) < 1
   \<and> boosted (1 / 2) 0 = 0 \<and> boosted (1 / 2) 1 = 1
   \<and> (1 / 4 :: real) \<le> boosted (1 / 2) (1 / 4)"
  using boost_range [of 51 51 102 "1 / 2" "1 / 4"] by simp

section \<open>Rounding to doubles\<close>

lemma round_half_even_cases:
  "round_half_even x = \<lfloor>x\<rfloor> \<or> round_half_even x = \<lfloor>x\<rfloor> + 1"
  by (simp add: round_half_even_def Let_def)

lemma round_half_even_of_int: "round_half_even (of_int n) = n"
  by (simp add: round_half_even_def)

lemma round_half_even_mono:
  assumes "x \<le> y"
  shows "round_half_even x \<le> round_half_even y"
proof (cases "\<lfloor>x\<rfloor> = \<lfloor>y\<rfloor>")
  case True
  have "x - of_int \<lfloor>x\<rfloor> \<le> y - of_int \<lfloor>y\<rfloor>"
    using assms True by simp
  then show ?thesis
    using True by (auto simp add: round_half_even_def Let_def)
next
  case False
  then have "\<lfloor>x\<rfloor> + 1 \<le> \<lfloor>y\<rfloor>"
    using floor_mono [OF assms] by linarith
  moreover have "round_half_even x \<le> \<lfloor>x\<rfloor> + 1" "\<lfloor>y\<rfloor> \<le> round_half_even y"
    using round_half_even_cases [of x] round_half_even_cases [of y] by auto
  ultimately show ?thesis by linarith
qed

lemma binade:
  assumes "0 < x"
  shows "2 powr of_int \<lfloor>log 2 x\<rfloor> \<le> x" and "x < 2 powr (of_int \<lfloor>log 2 x\<rfloor> + 1)"
proof -
  have two: "(1::real) < 2" by simp
  have "of_int \<lfloor>log 2 x\<rfloor> \<le> log 2 x"
    by (rule of_int_floor_le)
  with le_log_iff [OF two assms] show "2 powr of_int \<lfloor>log 2 x\<rfloor> \<le> x"
    by blast
  have "log 2 x < of_int \<lfloor>log 2 x\<rfloor> + 1"
    by linarith
  with log_less_iff [OF two assms] show "x < 2 powr (of_int \<lfloor>log 2 x\<rfloor> + 1)"
    by blast
qed

lemma ulp_pos: "0 < ulp x"
  by (simp add: ulp_def)

lemma ulp_times: "ulp x * 2 ^ 52 = 2 powr of_int \<lfloor>log 2 x\<rfloor>"
  by (simp add: ulp_def powr_diff)

lemma ulp_times': "ulp x * 2 ^ 53 = 2 powr (of_int \<lfloor>log 2 x\<rfloor> + 1)"
  by (simp add: ulp_def powr_diff powr_add)

lemma significand_range:
  assumes "0 < x"
  shows "2 ^ 52 \<le> x / ulp x" and "x / ulp x < 2 ^ 53"
proof -
  have "2 ^ 52 * ulp x \<le> x"
    using binade(1) [OF assms] by (simp only: ulp_times [symmetric] mult.commute)
  then show "2 ^ 52 \<le> x / ulp x"
    using ulp_pos [of x] by (simp only: le_divide_eq) simp
  have "x < 2 ^ 53 * ulp x"
    using binade(2) [OF assms] by (simp only: ulp_times' [symmetric] mult.commute)
  then show "x / ulp x < 2 ^ 53"
    using ulp_pos [of x] by (simp only: divide_less_eq) simp
qed

lemma fl_pos_eq: "0 < x \<Longrightarrow> fl x = ulp x * of_int (round_half_even (x / ulp x))"
  by (simp add: fl_def)

lemma fl_zero: "fl 0 = 0"
  by (simp add: fl_def)

lemma fl_binade:
  assumes "0 < x"
  shows "2 powr of_int \<lfloor>log 2 x\<rfloor> \<le> fl x" and "fl x \<le> 2 powr (of_int \<lfloor>log 2 x\<rfloor> + 1)"
proof -
  have "of_int (2 ^ 52) \<le> x / ulp x"
    using significand_range(1) [OF assms] by simp
  then have "round_half_even (of_int (2 ^ 52)) \<le> round_half_even (x / ulp x)"
    by (rule round_half_even_mono)
  then have "(2::int) ^ 52 \<le> round_half_even (x / ulp x)"
    by (simp only: round_half_even_of_int)
  then have "(of_int (2 ^ 52) :: real) \<le> of_int (round_half_even (x / ulp x))"
    by (simp only: of_int_le_iff)
  then have "(2 ^ 52 :: real) \<le> of_int (round_half_even (x / ulp x))"
    by simp
  then have "ulp x * 2 ^ 52 \<le> ulp x * of_int (round_half_even (x / ulp x))"
    using ulp_pos [of x] by (simp only: mult_le_cancel_left_pos)
  then show "2 powr of_int \<lfloor>log 2 x\<rfloor> \<le> fl x"
    by (simp only: ulp_times fl_pos_eq [OF assms])
  have "x / ulp x \<le> of_int (2 ^ 53)"
    using significand_range(2) [OF assms] by simp
  then have "round_half_even (x / ulp x) \<le> round_half_even (of_int (2 ^ 53))"
    by (rule round_half_even_mono)
  then have "round_half_even (x / ulp x) \<le> (2::int) ^ 53"
    by (simp only: round_half_even_of_int)
  then have "(of_int (round_half_even (x / ulp x)) :: real) \<le> of_int (2 ^ 53)"
    by (simp only: of_int_le_iff)
  then have "(of_int (round_half_even (x / ulp x)) :: real) \<le> 2 ^ 53"
    by simp
  then have "ulp x * of_int (round_half_even (x / ulp x)) \<le> ulp x * 2 ^ 53"
    using ulp_pos [of x] by (simp only: mult_le_cancel_left_pos)
  then show "fl x \<le> 2 powr (of_int \<lfloor>log 2 x\<rfloor> + 1)"
    by (simp only: ulp_times' fl_pos_eq [OF assms])
qed

lemma fl_nonneg: "0 \<le> x \<Longrightarrow> 0 \<le> fl x"
proof (cases "x = 0")
  case True
  then show ?thesis by (simp add: fl_zero)
next
  case False
  assume "0 \<le> x"
  with False have "0 < x" by simp
  from fl_binade(1) [OF this] show ?thesis
    by (rule order_trans [rotated]) simp
qed

lemma fl_mono:
  assumes "0 \<le> x" and "x \<le> y"
  shows "fl x \<le> fl y"
proof (cases "x = 0")
  case True
  then show ?thesis
    using assms fl_nonneg [of y] by (simp add: fl_zero)
next
  case False
  then have x: "0 < x" using assms(1) by simp
  then have y: "0 < y" using assms(2) by simp
  have le: "\<lfloor>log 2 x\<rfloor> \<le> \<lfloor>log 2 y\<rfloor>"
    using x y assms(2) by (intro floor_mono) simp
  show ?thesis
  proof (cases "\<lfloor>log 2 x\<rfloor> = \<lfloor>log 2 y\<rfloor>")
    case True
    then have u: "ulp x = ulp y" by (simp add: ulp_def)
    have "x / ulp y \<le> y / ulp y"
      using assms(2) ulp_pos [of y] by (simp add: divide_right_mono)
    then have "round_half_even (x / ulp y) \<le> round_half_even (y / ulp y)"
      by (rule round_half_even_mono)
    then have "ulp y * of_int (round_half_even (x / ulp y))
               \<le> ulp y * of_int (round_half_even (y / ulp y))"
      using ulp_pos [of y] by simp
    then show ?thesis
      by (simp add: fl_pos_eq [OF x] fl_pos_eq [OF y] u)
  next
    case False
    then have "\<lfloor>log 2 x\<rfloor> + 1 \<le> \<lfloor>log 2 y\<rfloor>" using le by linarith
    then have "(of_int \<lfloor>log 2 x\<rfloor> + 1 :: real) \<le> of_int \<lfloor>log 2 y\<rfloor>"
      by linarith
    then have "(2::real) powr (of_int \<lfloor>log 2 x\<rfloor> + 1) \<le> 2 powr of_int \<lfloor>log 2 y\<rfloor>"
      by simp
    then show ?thesis
      using fl_binade(2) [OF x] fl_binade(1) [OF y] by linarith
  qed
qed

text \<open>A number with a significand below \<open>2 ^ 53\<close> is a double: rounding leaves it as it is.\<close>

lemma fl_exact:
  assumes "0 < n" and "n < 2 ^ 53"
  shows "fl (real n * 2 powr of_int z) = real n * 2 powr of_int z"
proof -
  define b where "b = \<lfloor>log 2 (real n)\<rfloor>"
  define x where "x = real n * 2 powr of_int z"
  have x: "0 < x" using assms(1) by (simp add: x_def)
  have "log 2 x = log 2 (real n) + of_int z"
    using assms(1) by (simp add: x_def log_mult)
  then have e: "\<lfloor>log 2 x\<rfloor> = b + z"
    by (simp add: b_def)
  have "0 \<le> log 2 (real n)"
    using assms(1) by simp
  then have b0: "0 \<le> b" by (simp add: b_def)
  have "log 2 (real n) < 53"
    using log2_of_power_less [OF assms(2) assms(1)] by simp
  then have "b < 53" unfolding b_def by (simp add: floor_less_iff)
  then have b52: "b \<le> 52" by simp
  define m where "m = nat (52 - b)"
  have m: "real m = 52 - of_int b" using b52 by (simp add: m_def)
  have "of_int (b + z) - 52 = of_int z - real m"
    by (simp add: m)
  then have u: "ulp x = 2 powr (of_int z - real m)"
    by (simp only: ulp_def e)
  have "x / ulp x = x / 2 powr (of_int z - real m)"
    by (simp only: u)
  also have "\<dots> = real n * 2 powr of_int z / 2 powr (of_int z - real m)"
    by (simp only: x_def)
  also have "\<dots> = real n * 2 powr real m"
    by (simp add: powr_diff)
  finally have "x / ulp x = real n * 2 powr real m" .
  also have "\<dots> = real n * 2 ^ m"
    by (simp add: powr_realpow)
  also have "\<dots> = of_int (int n * 2 ^ m)"
    by simp
  finally have q: "x / ulp x = of_int (int n * 2 ^ m)" .
  have "fl x = ulp x * of_int (int n * 2 ^ m)"
    unfolding fl_pos_eq [OF x] q round_half_even_of_int ..
  also have "\<dots> = ulp x * (x / ulp x)"
    by (simp only: q)
  also have "\<dots> = x"
    using ulp_pos [of x] by simp
  finally show ?thesis by (simp only: x_def)
qed

lemma fl_31_32: "fl (31 / 32) = 31 / 32"
proof -
  have e: "real 31 * 2 powr of_int (- 5) = 31 / 32"
    by (simp add: powr_minus)
  have "fl (real 31 * 2 powr of_int (- 5)) = real 31 * 2 powr of_int (- 5)"
    by (rule fl_exact) simp_all
  then show ?thesis
    unfolding e .
qed

text \<open>Below every positive number there is a double that is at least 31/32 of it.\<close>

lemma double_below:
  assumes "0 < L"
  shows "\<exists>d. fl d = d \<and> 31 * L / 32 \<le> d \<and> d < L"
proof -
  define e where "e = \<lfloor>log 2 L\<rfloor>"
  define g :: real where "g = 2 powr of_int (e - 5)"
  define t where "t = 31 * L / 32 / g"
  define k where "k = nat \<lceil>t\<rceil>"
  have g: "0 < g" by (simp add: g_def)
  have g32: "g * 32 = 2 powr of_int e"
    by (simp add: g_def powr_diff)
  have lo: "g * 32 \<le> L"
    using binade(1) [OF assms] by (simp only: g32 e_def)
  have "2 powr (of_int e + 1) = g * 64"
    using g32 by (simp add: powr_add)
  then have hi: "L < g * 64"
    using binade(2) [OF assms] by (simp only: e_def)
  have t: "0 < t" using assms g by (simp add: t_def)
  have tg: "t * g = 31 * L / 32" using g by (simp add: t_def)
  have "t * g < 62 * g" unfolding tg using hi by simp
  then have t62: "t < 62" using g by simp
  have kt: "t \<le> real k" "real k < t + 1"
    using t by (simp_all add: k_def) linarith+
  have k0: "0 < k" using t kt(1) by (cases k) simp_all
  have "real k < 63" using kt(2) t62 by simp
  then have "k < 63" by simp
  then have k53: "k < 2 ^ 53" by simp
  have d: "fl (real k * g) = real k * g"
    unfolding g_def by (rule fl_exact [OF k0 k53])
  have "t * g \<le> real k * g"
    using kt(1) g by simp
  then have 1: "31 * L / 32 \<le> real k * g" by (simp only: tg)
  have "real k * g < (t + 1) * g"
    using kt(2) g by simp
  also have "\<dots> = 31 * L / 32 + g"
    by (simp add: distrib_right tg)
  also have "\<dots> \<le> L"
    using lo by simp
  finally have 2: "real k * g < L" .
  from d 1 2 show ?thesis by blast
qed

lemma freqIndex_range:
  assumes "index < 20" and "0 < len"
  shows "0 \<le> freqIndex index len" and "freqIndex index len < int len"
proof -
  define c where "c = fl (real index / 20)"
  have "real index / 20 \<le> 31 / 32"
    using assms(1) by simp
  then have "c \<le> fl (31 / 32)"
    unfolding c_def by (intro fl_mono) simp_all
  then have c1: "c \<le> 31 / 32" by (simp only: fl_31_32)
  have c0: "0 \<le> c"
    unfolding c_def by (rule fl_nonneg) simp
  have p0: "0 \<le> c * real len"
    using c0 by simp
  have "0 \<le> fl (c * real len)"
    by (rule fl_nonneg [OF p0])
  then show "0 \<le> freqIndex index len"
    by (simp add: freqIndex_def c_def)
  obtain d where d: "fl d = d" "31 * real len / 32 \<le> d" "d < real len"
    using double_below [of "real len"] assms(2) by auto
  have "c * real len \<le> 31 / 32 * real len"
    using c1 by (intro mult_right_mono) simp_all
  then have "c * real len \<le> d"
    using d(2) by simp
  then have "fl (c * real len) \<le> fl d"
    by (rule fl_mono [OF p0])
  then have "fl (c * real len) < real len"
    using d(1,3) by simp
  then show "freqIndex index len < int len"
    by (simp add: freqIndex_def c_def floor_less_iff)
qed

text \<open>Evaluation of the rounding at a number whose binade is given.\<close>

lemma fl_scaled:
  assumes "2 ^ 52 \<le> x * 2 ^ m" and "x * 2 ^ m < 2 ^ 53"
  shows "fl x = of_int (round_half_even (x * 2 ^ m)) / 2 ^ m"
proof -
  have x: "0 < x"
  proof (rule ccontr)
    assume "\<not> 0 < x"
    then have "x * 2 ^ m \<le> 0" by (simp add: mult_le_0_iff)
    with assms(1) show False by (simp add: not_le [symmetric] power_le_zero_eq)
  qed
  have two: "(1::real) < 2" by simp
  have "2 powr (52 - real m) \<le> x" "x < 2 powr (53 - real m)"
    using assms by (simp_all add: powr_diff powr_realpow field_simps)
  then have "52 - real m \<le> log 2 x" "log 2 x < 53 - real m"
    using le_log_iff [OF two x] log_less_iff [OF two x] by blast+
  then have "\<lfloor>log 2 x\<rfloor> = 52 - int m"
    by (intro floor_unique) simp_all
  then have "ulp x = 2 powr (- real m)"
    by (simp add: ulp_def)
  then have u: "ulp x = 1 / 2 ^ m"
    by (simp add: powr_minus powr_realpow inverse_eq_divide)
  show ?thesis
    unfolding fl_pos_eq [OF x] u by simp
qed

lemma freqIndex_14_90: "freqIndex 14 90 = 62"
proof -
  have h1: "2 ^ 52 \<le> real 14 / 20 * 2 ^ 53" "real 14 / 20 * 2 ^ 53 < 2 ^ 53"
    by simp_all
  have r1: "round_half_even (real 14 / 20 * 2 ^ 53) = 6305039478318694"
    by (simp add: round_half_even_def Let_def)
  have f1: "fl (real 14 / 20) = of_int 6305039478318694 / 2 ^ 53"
    by (simp only: fl_scaled [OF h1] r1)
  have h2: "2 ^ 52 \<le> of_int 6305039478318694 / 2 ^ 53 * real 90 * 2 ^ 47"
    "of_int 6305039478318694 / 2 ^ 53 * real 90 * 2 ^ 47 < 2 ^ 53"
    by simp_all
  have r2: "round_half_even (of_int 6305039478318694 / 2 ^ 53 * real 90 * 2 ^ 47)
            = 8866461766385663"
    by (simp add: round_half_even_def Let_def)
  have f2: "fl (of_int 6305039478318694 / 2 ^ 53 * real 90) = of_int 8866461766385663 / 2 ^ 47"
    by (simp only: fl_scaled [OF h2] r2)
  have "\<lfloor>(of_int 8866461766385663 / 2 ^ 47 :: real)\<rfloor> = 62"
    by simp
  then show ?thesis
    by (simp only: freqIndex_def f1 f2)
qed

lemma freqIndex_0: "freqIndex 0 len = 0"
  by (simp add: freqIndex_def fl_def)

section \<open>Smoothing\<close>

lemma oscillationPeriod_nonzero: "0 \<le> r \<Longrightarrow> r \<le> 1 \<Longrightarrow> oscillationPeriod r \<noteq> 0"
  by (simp add: oscillationPeriod_eq)

lemma lerp_funpow: "((\<lambda>x. lerp x T) ^^ K) x0 = T - (T - x0) * (1 - smoothingFactor) ^ K"
proof (induction K)
  case 0
  show ?case by simp
next
  case (Suc K)
  have "((\<lambda>x. lerp x T) ^^ Suc K) x0 = lerp (T - (T - x0) * (1 - smoothingFactor) ^ K) T"
    using Suc.IH by simp
  also have "\<dots> = T - (T - x0) * (1 - smoothingFactor) ^ Suc K"
    by (simp add: lerp_def algebra_simps)
  finally show ?case .
qed

lemma lerp_between: "min x T \<le> lerp x T \<and> lerp x T \<le> max x T"
  unfolding lerp_def smoothingFactor_def by (auto simp add: min_def max_def field_simps)

text \<open>The frequency that the cube at \<open>index\<close> reads from a frame.\<close>

lemma useFrame_smooth:
  assumes "index < 20" and "0 < length fd" and "0 \<le> audioLevel" and "audioLevel \<le> 1"
  shows "\<exists>c'. useFrame time delta speed audioLevel (Some fd) index c = Some c'
           \<and> smoothedScale c' = lerp (smoothedScale c)
                (targetScale (real (unat (fd ! nat (freqIndex index (length fd)))) / 255))
           \<and> smoothedRadius c' = lerp (smoothedRadius c)
                (targetRadius (real (unat (fd ! nat (freqIndex index (length fd)))) / 255))"
proof -
  have "nat (freqIndex index (length fd)) < length fd"
    using freqIndex_range [OF assms(1,2)] by simp
  then show ?thesis
    using assms(2) oscillationPeriod_nonzero [OF assms(3,4)]
    by (simp add: useFrame_def Let_def)
qed

lemma lerp_step_closed:
  "T - (T - lerp x T) * (1 - smoothingFactor) ^ n = T - (T - x) * (1 - smoothingFactor) ^ Suc n"
  by (simp add: lerp_def algebra_simps)

lemma frames_smooth:
  assumes "index < 20" and "0 < length fd" and "0 \<le> audioLevel" and "audioLevel \<le> 1"
  defines "frequency \<equiv> real (unat (fd ! nat (freqIndex index (length fd)))) / 255"
  shows "\<exists>c'. frames ts speed audioLevel (Some fd) index c = Some c'
           \<and> smoothedScale c' = targetScale frequency
                - (targetScale frequency - smoothedScale c) * (1 - smoothingFactor) ^ length ts
           \<and> smoothedRadius c' = targetRadius frequency
                - (targetRadius frequency - smoothedRadius c) * (1 - smoothingFactor) ^ length ts"
proof (induction ts arbitrary: c)
  case Nil
  show ?case by simp
next
  case (Cons p ts)
  obtain time delta where p: "p = (time, delta)" by (cases p)
  obtain c1 where c1: "useFrame time delta speed audioLevel (Some fd) index c = Some c1"
    and s1: "smoothedScale c1 = lerp (smoothedScale c) (targetScale frequency)"
    and r1: "smoothedRadius c1 = lerp (smoothedRadius c) (targetRadius frequency)"
    using useFrame_smooth [OF assms(1-4)] unfolding frequency_def by blast
  obtain c2 where c2: "frames ts speed audioLevel (Some fd) index c1 = Some c2"
    and s2: "smoothedScale c2 = targetScale frequency
                - (targetScale frequency - smoothedScale c1) * (1 - smoothingFactor) ^ length ts"
    and r2: "smoothedRadius c2 = targetRadius frequency
                - (targetRadius frequency - smoothedRadius c1) * (1 - smoothingFactor) ^ length ts"
    using Cons.IH [of c1] by blast
  have "frames (p # ts) speed audioLevel (Some fd) index c = Some c2"
    by (simp add: p c1 c2)
  moreover have "smoothedScale c2 = targetScale frequency
      - (targetScale frequency - smoothedScale c) * (1 - smoothingFactor) ^ length (p # ts)"
    unfolding s2 s1 lerp_step_closed by simp
  moreover have "smoothedRadius c2 = targetRadius frequency
      - (targetRadius frequency - smoothedRadius c) * (1 - smoothingFactor) ^ length (p # ts)"
    unfolding r2 r1 lerp_step_closed by simp
  ultimately show ?case by blast
qed

text \<open>
  C3. A constant target \<open>T\<close> held for \<open>K\<close> smoothing updates \<open>x += (T - x) * 0.1\<close> takes the
  smoothed value from its initial value \<open>x0\<close> to \<open>T - (T - x0) * (1 - 0.1) ^ K\<close>, and every
  single update leaves the value between its previous value and the target (no overshoot).
  The same closed form holds for the smoothed scale and the smoothed tube radius of a cube
  after any number of frame callbacks with unchanged, non-empty frequency data.
\<close>

theorem lerp_closed_form:
  fixes T x0 x :: real
  shows "((\<lambda>x. lerp x T) ^^ K) x0 = T - (T - x0) * (1 - smoothingFactor) ^ K
         \<and> smoothingFactor = 0.1
         \<and> lerp x T = x + (T - x) * smoothingFactor
         \<and> min x T \<le> lerp x T \<and> lerp x T \<le> max x T
         \<and> (index < cubeCount \<and> 0 < length fd \<and> 0 \<le> audioLevel \<and> audioLevel \<le> 1 \<longrightarrow>
              (\<exists>c'. frames ts speed audioLevel (Some fd) index c = Some c'
                 \<and> smoothedScale c' =
                     (let target = targetScale
                            (real (unat (fd ! nat (freqIndex index (length fd)))) / 255)
                      in target - (target - smoothedScale c)
                           * (1 - smoothingFactor) ^ length ts)
                 \<and> smoothedRadius c' =
                     (let target = targetRadius
                            (real (unat (fd ! nat (freqIndex index (length fd)))) / 255)
                      in target - (target - smoothedRadius c)
                           * (1 - smoothingFactor) ^ length ts)))"
proof -
  have "\<exists>c'. frames ts speed audioLevel (Some fd) index c = Some c'
                 \<and> smoothedScale c' =
                     (let target = targetScale
                            (real (unat (fd ! nat (freqIndex index (length fd)))) / 255)
                      in target - (target - smoothedScale c)
                           * (1 - smoothingFactor) ^ length ts)
                 \<and> smoothedRadius c' =
                     (let target = targetRadius
                            (real (unat (fd ! nat (freqIndex index (length fd)))) / 255)
                      in target - (target - smoothedRadius c)
                           * (1 - smoothingFactor) ^ length ts)"
    if "index < cubeCount" "0 < length fd" "0 \<le> audioLevel" "audioLevel \<le> 1"
  proof -
    have "index < 20" using that(1) by (simp add: cubeCount_def)
    from frames_smooth [OF this that(2,3,4), of ts speed c] show ?thesis
      unfolding Let_def .
  qed
  then show ?thesis
    using lerp_funpow [where T = T and K = K and ?x0.0 = x0] lerp_between [where x = x and T = T]
    by (simp add: smoothingFactor_def lerp_def)
qed

theorem lerp_closed_form_witness:
  "(0::nat) < cubeCount \<and> 0 < length [255 :: byte] \<and> (0::real) \<le> 0 \<and> (0::real) \<le> 1
   \<and> (\<exists>c'. frames [(0, 1 / 60), (1 / 60, 1 / 60)] (rotationSpeed 0) 0 (Some [255]) 0
               \<lparr>rotation_x = 0, rotation_y = 0, rotation_z = 0, scale = 1,
                tubeRadius = 0.02, smoothedScale = 1, smoothedRadius = 0.02\<rparr> = Some c'
            \<and> smoothedScale c' = 1.114
            \<and> smoothedRadius c' = 0.0276)"
  using lerp_closed_form [where index = 0 and fd = "[255]" and audioLevel = 0
      and ts = "[(0, 1 / 60), (1 / 60, 1 / 60)]" and speed = "rotationSpeed 0"
      and c = "\<lparr>rotation_x = 0, rotation_y = 0, rotation_z = 0, scale = 1,
        tubeRadius = 0.02, smoothedScale = 1, smoothedRadius = 0.02\<rparr>"]
  by (simp add: cubeCount_def freqIndex_0 targetScale_def targetRadius_def
      smoothingFactor_def power2_eq_square)

section \<open>Frequency bin of a cube\<close>

text \<open>
  C6. For every cube index below \<open>cubeCount\<close> = 20 and every non-empty spectrum frame of
  length \<open>L\<close>, the bin index \<open>floor ((index / 20) * L)\<close>, with the quotient and the product
  rounded to doubles, lies in \<open>[0, L - 1]\<close>, so the read of the frame in the frame callback
  is never out of bounds.
\<close>

theorem freqIndex_in_bounds:
  assumes "index < cubeCount" and "0 < length frame"
  shows "cubeCount = 20
         \<and> freqIndex index (length frame)
             = \<lfloor>fl (fl (real index / 20) * real (length frame))\<rfloor>
         \<and> 0 \<le> freqIndex index (length frame)
         \<and> freqIndex index (length frame) \<le> int (length frame) - 1
         \<and> nat (freqIndex index (length frame)) < length frame
         \<and> (0 \<le> audioLevel \<and> audioLevel \<le> 1 \<longrightarrow>
              useFrame time delta speed audioLevel (Some frame) index c \<noteq> None)"
proof -
  have i: "index < 20" using assms(1) by (simp add: cubeCount_def)
  note r = freqIndex_range [OF i assms(2)]
  have n: "nat (freqIndex index (length frame)) < length frame"
    using r by simp
  have "useFrame time delta speed audioLevel (Some frame) index c \<noteq> None"
    if "0 \<le> audioLevel" "audioLevel \<le> 1"
  proof -
    have "oscillationPeriod audioLevel \<noteq> 0"
      using that by (simp add: oscillationPeriod_eq)
    then show ?thesis
      using n assms(2) by (simp add: useFrame_def Let_def)
  qed
  moreover have "freqIndex index (length frame)
             = \<lfloor>fl (fl (real index / 20) * real (length frame))\<rfloor>"
    by (simp only: freqIndex_def)
  ultimately show ?thesis
    using r n by (simp add: cubeCount_def)
qed

theorem freqIndex_in_bounds_witness:
  "(14::nat) < cubeCount \<and> 0 < length (replicate 90 (0::byte))
   \<and> freqIndex 14 (length (replicate 90 (0::byte))) = 62
   \<and> nat (freqIndex 14 (length (replicate 90 (0::byte)))) < length (replicate 90 (0::byte))
   \<and> (0::real) \<le> 1 / 2 \<and> (1 / 2 :: real) \<le> 1
   \<and> useFrame 3 (1 / 60) (rotationSpeed 14) (1 / 2) (Some (replicate 90 0)) 14
        \<lparr>rotation_x = 0, rotation_y = 0, rotation_z = 0, scale = 1,
         tubeRadius = 0.02, smoothedScale = 1, smoothedRadius = 0.02\<rparr> \<noteq> None"
  using freqIndex_in_bounds [where index = 14 and frame = "replicate 90 0"
      and audioLevel = "1 / 2" and time = 3 and delta = "1 / 60" and speed = "rotationSpeed 14"
      and c = "\<lparr>rotation_x = 0, rotation_y = 0, rotation_z = 0, scale = 1,
        tubeRadius = 0.02, smoothedScale = 1, smoothedRadius = 0.02\<rparr>"]
  by (simp add: cubeCount_def freqIndex_14_90)

section \<open>Frame callback\<close>

text \<open>
  C7. A frame callback with an empty spectrum frame (or none) leaves the smoothed scale
  and the smoothed tube radius of the cube, and the scale and tube radius set from them,
  unchanged; it does not fault.
\<close>

theorem useFrame_empty_spectrum:
  assumes "0 \<le> audioLevel" and "audioLevel \<le> 1"
    and "frequencyData = Some [] \<or> frequencyData = None"
  shows "\<exists>c'. useFrame time delta speed audioLevel frequencyData index c = Some c'
              \<and> smoothedScale c' = smoothedScale c
              \<and> smoothedRadius c' = smoothedRadius c
              \<and> scale c' = scale c \<and> tubeRadius c' = tubeRadius c"
  using assms(3) oscillationPeriod_nonzero [OF assms(1,2)]
  by (auto simp add: useFrame_def Let_def)

theorem useFrame_empty_spectrum_witness:
  "(0::real) \<le> 1 / 3 \<and> (1 / 3 :: real) \<le> 1
   \<and> (\<exists>c'. useFrame 2 (1 / 60) (rotationSpeed 4) (1 / 3) (Some []) 4
               \<lparr>rotation_x = 0, rotation_y = 0, rotation_z = 0, scale = 1.2,
                tubeRadius = 0.03, smoothedScale = 1.2, smoothedRadius = 0.03\<rparr> = Some c'
            \<and> smoothedScale c' = 1.2 \<and> smoothedRadius c' = 0.03)"
  using useFrame_empty_spectrum [of "1 / 3" "Some []" 2 "1 / 60" "rotationSpeed 4" 4
      "\<lparr>rotation_x = 0, rotation_y = 0, rotation_z = 0, scale = 1.2,
        tubeRadius = 0.03, smoothedScale = 1.2, smoothedRadius = 0.03\<rparr>"]
  by auto

lemma rotationSpeed_eq: "rotationSpeed index = 0.1 + real index * 0.01"
  by (simp add: rotationSpeed_def)

text \<open>
  C8. For every cube index and every reactivity scalar \<open>r\<close> in \<open>[0, 1]\<close>, the rotation speed
  of the cube is \<open>0.1 + index * 0.01 > 0\<close> and the audio boost \<open>r * rotationSpeed * 2\<close> is not
  negative, while the oscillation term can be negative: it is for cube 0 at time 45 with
  no audio.
\<close>

theorem audioBoostSpeed_nonneg:
  fixes r :: real and index :: nat
  shows "(0 \<le> r \<and> r \<le> 1 \<longrightarrow>
            rotationSpeed index = 0.1 + real index * 0.01
            \<and> 0 < rotationSpeed index
            \<and> audioBoostSpeed (rotationSpeed index) r = r * rotationSpeed index * 2
            \<and> 0 \<le> audioBoostSpeed (rotationSpeed index) r)
         \<and> baseSpeed 45 (rotationSpeed 0) 0 0 < 0"
proof -
  have pos: "0 < rotationSpeed index"
    unfolding rotationSpeed_eq by (intro add_pos_nonneg) simp_all
  have "45 / oscillationPeriod 0 * pi * 2 + phase 0 = 3 / 2 * pi"
    by (simp add: oscillationPeriod_eq phase_def)
  then have "speedModulation 45 0 0 = - 1"
    unfolding speedModulation_def by (simp only: sin_3over2_pi)
  then have neg: "baseSpeed 45 (rotationSpeed 0) 0 0 < 0"
    by (simp add: baseSpeed_def rotationSpeed_eq)
  show ?thesis
    using pos neg by (simp add: audioBoostSpeed_def rotationSpeed_eq)
qed

theorem audioBoostSpeed_nonneg_witness:
  "(0::real) \<le> 1 / 2 \<and> (1 / 2 :: real) \<le> 1
   \<and> audioBoostSpeed (rotationSpeed 3) (1 / 2) = 13 / 100
   \<and> 0 \<le> audioBoostSpeed (rotationSpeed 3) (1 / 2)"
  using audioBoostSpeed_nonneg [of "1 / 2" 3] by (simp add: rotationSpeed_eq)

lemma updateAudioData_zeros:
  assumes "0 < n"
  shows "updateAudioData (replicate n 0) = Some 0"
proof -
  have "sum_list (map unat (replicate n (0::byte))) = 0"
    by (induction n) simp_all
  then show ?thesis
    using assms by (simp add: updateAudioData_def boost_def boosted_def)
qed

lemma speedModulation_quarter: "speedModulation 15 0 0 = 1"
proof -
  have "sin (15 / 60 * pi * 2) = sin (pi / 2)"
    by (rule arg_cong [where f = sin]) simp
  then show ?thesis
    by (simp add: speedModulation_def phase_def oscillationPeriod_eq)
qed

text \<open>
  C9. With a non-empty spectrum frame of zeros the audio level is \<open>boost 0 = 0\<close>; at elapsed
  time 15 the cube at index 0 has period 60, phase 0, oscillation \<open>sin (\<pi> / 2) = 1\<close>, audio
  boost 0 and effective speed equal to its rotation speed; the frame callback adds
  \<open>rotationSpeed * delta\<close> to each of the three rotation angles.
\<close>

theorem useFrame_quarter_period:
  assumes "0 < n"
  shows "updateAudioData (replicate n 0) = Some 0
         \<and> oscillationPeriod 0 = 60
         \<and> phase 0 = 0
         \<and> speedModulation 15 0 0 = 1
         \<and> audioBoostSpeed speed 0 = 0
         \<and> effectiveSpeed 15 speed 0 0 = speed
         \<and> (\<exists>c'. useFrame 15 delta speed 0 (Some (replicate n 0)) 0 c = Some c'
                \<and> rotation_x c' = rotation_x c + speed * delta
                \<and> rotation_y c' = rotation_y c + speed * delta
                \<and> rotation_z c' = rotation_z c + speed * delta)"
proof -
  have e: "effectiveSpeed 15 speed 0 0 = speed"
    by (simp add: effectiveSpeed_def baseSpeed_def audioBoostSpeed_def speedModulation_quarter)
  have i: "nat (freqIndex 0 n) < n"
    using assms by (simp add: freqIndex_0)
  have "\<exists>c'. useFrame 15 delta speed 0 (Some (replicate n 0)) 0 c = Some c'
                \<and> rotation_x c' = rotation_x c + speed * delta
                \<and> rotation_y c' = rotation_y c + speed * delta
                \<and> rotation_z c' = rotation_z c + speed * delta"
    using assms i by (simp add: useFrame_def Let_def e oscillationPeriod_eq)
  then show ?thesis
    using e updateAudioData_zeros [OF assms]
    by (simp add: oscillationPeriod_eq phase_def speedModulation_quarter audioBoostSpeed_def)
qed

theorem useFrame_quarter_period_witness:
  "(0::nat) < 64
   \<and> updateAudioData (replicate 64 0) = Some 0
   \<and> effectiveSpeed 15 (rotationSpeed 0) 0 0 = 1 / 10
   \<and> (\<exists>c'. useFrame 15 (1 / 60) (rotationSpeed 0) 0 (Some (replicate 64 0)) 0
               \<lparr>rotation_x = 1, rotation_y = 2, rotation_z = 3, scale = 1,
                tubeRadius = 0.02, smoothedScale = 1, smoothedRadius = 0.02\<rparr> = Some c'
            \<and> rotation_x c' = 1 + 1 / 600
            \<and> rotation_y c' = 2 + 1 / 600
            \<and> rotation_z c' = 3 + 1 / 600)"
  using useFrame_quarter_period [of 64 "rotationSpeed 0" "1 / 60"
      "\<lparr>rotation_x = 1, rotation_y = 2, rotation_z = 3, scale = 1,
        tubeRadius = 0.02, smoothedScale = 1, smoothedRadius = 0.02\<rparr>"]
  by (simp add: rotationSpeed_eq)

section \<open>Kaleidoscope fold on finite values\<close>




lemma mainUv_unfold:
  "mainUv u segments aspect uv =
     (let coord = aspect_correction aspect (fst uv - 0.5, snd uv - 0.5);
          w = wrapAngle (segmentAngle segments) (glsl_atan u (snd coord) (fst coord));
          n = reverse_aspect_correction aspect
                (cos w * glsl_length coord, sin w * glsl_length coord)
      in (fst n + 0.5, snd n + 0.5))"
  by (simp add: mainUv_def Let_def)



subsection \<open>The wrapped angle is even and periodic\<close>

lemma glsl_mod_frac: "y \<noteq> 0 \<Longrightarrow> glsl_mod x y = y * frac (x / y)"
  by (simp add: glsl_mod_def frac_def algebra_simps)

lemma wrapAngle_frac:
  assumes "0 < s"
  shows "wrapAngle s a =
     (if 1 / 2 < frac (a / (s * 2)) then s * 2 * (1 - frac (a / (s * 2)))
      else s * 2 * frac (a / (s * 2)))"
proof -
  have "s < s * 2 * frac (a / (s * 2)) \<longleftrightarrow> 1 / 2 < frac (a / (s * 2))"
    using assms by (simp add: field_simps)
  then show ?thesis
    using assms by (simp add: wrapAngle_def glsl_mod_frac Let_def algebra_simps)
qed

lemma wrapAngle_minus:
  assumes "0 < s"
  shows "wrapAngle s (- a) = wrapAngle s a"
proof -
  define t where "t = a / (s * 2)"
  have w1: "wrapAngle s a = (if 1 / 2 < frac t then s * 2 * (1 - frac t) else s * 2 * frac t)"
    unfolding t_def by (rule wrapAngle_frac [OF assms])
  have "- a / (s * 2) = - t"
    by (simp add: t_def)
  then have w2: "wrapAngle s (- a) =
      (if 1 / 2 < frac (- t) then s * 2 * (1 - frac (- t)) else s * 2 * frac (- t))"
    using wrapAngle_frac [OF assms, of "- a"] by simp
  show ?thesis
  proof (cases "t \<in> \<int>")
    case True
    then have f: "frac t = 0" "frac (- t) = 0"
      by (simp_all add: frac_neg)
    show ?thesis
      by (simp add: w1 w2 f)
  next
    case False
    then have f: "frac (- t) = 1 - frac t"
      by (simp add: frac_neg)
    show ?thesis
      unfolding w1 w2 f by auto
  qed
qed

lemma wrapAngle_shift:
  assumes "0 < s"
  shows "wrapAngle s (a + 2 * of_int k * s) = wrapAngle s a"
proof -
  have "(a + 2 * of_int k * s) / (s * 2) = a / (s * 2) + of_int k"
    using assms by (simp add: field_simps)
  then show ?thesis
    using assms by (simp add: wrapAngle_frac)
qed

lemma wrapAngle_mirror:
  assumes "0 < s"
  shows "wrapAngle s (2 * of_int k * s - a) = wrapAngle s a"
  using wrapAngle_shift [OF assms, of "- a" k] wrapAngle_minus [OF assms, of a]
  by (simp add: algebra_simps)

lemma wrapAngle_small: "0 < s \<Longrightarrow> 0 \<le> a \<Longrightarrow> a \<le> s \<Longrightarrow> wrapAngle s a = a"
proof -
  assume s: "0 < s" and a: "0 \<le> a" "a \<le> s"
  have "a / (s * 2) \<in> {0..<1}"
    using s a by (simp add: field_simps)
  then have "frac (a / (s * 2)) = a / (s * 2)"
    by (rule frac_eq_id)
  moreover have "\<not> 1 / 2 < a / (s * 2)"
    using s a by (simp add: field_simps)
  ultimately show ?thesis
    using s by (simp add: wrapAngle_frac)
qed

subsection \<open>The angle of a point given in polar form\<close>

lemma glsl_atan_right: "0 < x \<Longrightarrow> glsl_atan u y x = arctan (y / x)"
  by (simp add: glsl_atan_def)

lemma glsl_atan_upper_left: "x < 0 \<Longrightarrow> 0 \<le> y \<Longrightarrow> glsl_atan u y x = arctan (y / x) + pi"
  by (simp add: glsl_atan_def)

lemma glsl_atan_lower_left: "x < 0 \<Longrightarrow> y < 0 \<Longrightarrow> glsl_atan u y x = arctan (y / x) - pi"
  by (simp add: glsl_atan_def)

lemma glsl_atan_polar:
  assumes "0 < r" and "- pi < a" and "a \<le> pi"
  shows "glsl_atan u (r * sin a) (r * cos a) = a"
proof -
  have q: "r * sin a / (r * cos a) = tan a"
    using assms(1) by (simp add: tan_def)
  consider "a < - (pi / 2)" | "a = - (pi / 2)" | "- (pi / 2) < a \<and> a < pi / 2"
    | "a = pi / 2" | "pi / 2 < a"
    by linarith
  then show ?thesis
  proof cases
    case 1
    have p: "0 < a + pi" "a + pi < pi / 2"
      using 1 assms(2) by linarith+
    have "0 < cos (a + pi)" "0 < sin (a + pi)"
      by (rule cos_gt_zero [OF p], rule sin_gt_zero2 [OF p])
    then have c: "cos a < 0" and s: "sin a < 0" by simp_all
    have "arctan (tan (a + pi)) = a + pi"
      using p by (intro arctan_tan) linarith+
    then have t: "arctan (tan a) = a + pi" by simp
    have "r * cos a < 0" "r * sin a < 0"
      using assms(1) c s by (simp_all add: mult_pos_neg)
    then have "glsl_atan u (r * sin a) (r * cos a) = arctan (r * sin a / (r * cos a)) - pi"
      by (rule glsl_atan_lower_left)
    then show ?thesis
      by (simp only: q t)
  next
    case 2
    show ?thesis
      unfolding 2 using assms(1) by (simp add: glsl_atan_def)
  next
    case 3
    then have c: "0 < cos a" by (simp add: cos_gt_zero_pi)
    have t: "arctan (tan a) = a"
      using 3 by (intro arctan_tan) simp_all
    have "0 < r * cos a"
      using assms(1) c by simp
    then have "glsl_atan u (r * sin a) (r * cos a) = arctan (r * sin a / (r * cos a))"
      by (rule glsl_atan_right)
    then show ?thesis
      by (simp only: q t)
  next
    case 4
    show ?thesis
      unfolding 4 using assms(1) by (simp add: glsl_atan_def)
  next
    case 5
    have p: "- (pi / 2) < a - pi" "a - pi < pi / 2"
      using 5 assms(3) by linarith+
    have "0 < cos (a - pi)"
      by (rule cos_gt_zero_pi [OF p])
    then have c: "cos a < 0"
      by (simp add: cos_diff)
    have s: "0 \<le> sin a"
      using 5 assms(3) by (intro sin_ge_zero) simp_all
    have "arctan (tan (a - pi)) = a - pi"
      by (rule arctan_tan [OF p])
    moreover have "tan (a - pi) = tan a"
      using tan_periodic_pi [of "a - pi"] by simp
    ultimately have t: "arctan (tan a) = a - pi" by simp
    have "r * cos a < 0" "0 \<le> r * sin a"
      using assms(1) c s by (simp_all add: mult_pos_neg)
    then have "glsl_atan u (r * sin a) (r * cos a) = arctan (r * sin a / (r * cos a)) + pi"
      by (rule glsl_atan_upper_left)
    then show ?thesis
      by (simp only: q t)
  qed
qed

lemma glsl_length_polar': "0 \<le> r \<Longrightarrow> glsl_length (r * cos a, r * sin a) = r"
proof -
  assume r: "0 \<le> r"
  have "r * cos a * (r * cos a) + r * sin a * (r * sin a)
        = r * r * (cos a * cos a) + r * r * (sin a * sin a)"
    by (simp add: algebra_simps)
  also have "\<dots> = r * r * (cos a * cos a + sin a * sin a)"
    by (simp only: distrib_left)
  also have "\<dots> = r * r"
    by simp
  finally show ?thesis
    using r by (simp add: glsl_length_def)
qed

text \<open>With aspect 1 the fold keeps the radius of a point and wraps its angle.\<close>

lemma mainUv_polar:
  assumes "0 < r" and "- pi < a" and "a \<le> pi"
  shows "mainUv u segments 1 (0.5 + r * cos a, 0.5 + r * sin a) =
           (0.5 + r * cos (wrapAngle (segmentAngle segments) a),
            0.5 + r * sin (wrapAngle (segmentAngle segments) a))"
  using assms
  by (simp add: mainUv_unfold aspect_correction_def reverse_aspect_correction_def
      glsl_atan_polar glsl_length_polar' Let_def)

lemma mainUv_center:
  "mainUv u segments aspect (0.5, 0.5) = (0.5, 0.5)"
  by (simp add: mainUv_unfold aspect_correction_def reverse_aspect_correction_def
      glsl_length_def Let_def)


lemma segmentAngle_pos: "0 < segments \<Longrightarrow> 0 < segmentAngle segments"
  by (simp add: segmentAngle_def)

subsection \<open>Mirror images across the wedge boundaries\<close>

lemma polar_form:
  assumes "cx \<noteq> 0 \<or> cy \<noteq> 0"
  shows "\<exists>r a. 0 < r \<and> - pi < a \<and> a \<le> pi \<and> cx = r * cos a \<and> cy = r * sin a"
proof -
  obtain r0 a0 where p: "cx = r0 * cos a0" "cy = r0 * sin a0"
    using polar_Ex [of cx cy] by blast
  have r0: "r0 \<noteq> 0" using assms p by auto
  obtain r a1 where r: "0 < r" and q: "cx = r * cos a1" "cy = r * sin a1"
  proof (cases "0 < r0")
    case True
    with p that show ?thesis by blast
  next
    case False
    then have "0 < - r0" using r0 by simp
    moreover have "cx = - r0 * cos (a0 + pi)" "cy = - r0 * sin (a0 + pi)"
      using p by simp_all
    ultimately show ?thesis using that by blast
  qed
  obtain a where a: "- pi < a" "a \<le> pi" "sin a = sin a1" "cos a = cos a1"
    using sincos_principal_value [of a1] by blast
  have "cx = r * cos a" "cy = r * sin a"
    using q a(3,4) by simp_all
  with r a(1,2) show ?thesis by blast
qed

lemma segmentAngle_12: "segmentAngle 12 = pi / 6"
  by (simp add: segmentAngle_def)

text \<open>Angles with the same sine and cosine wrap to the same angle, for 12 segments.\<close>

lemma wrapAngle_same_direction:
  assumes "sin b = sin a" and "cos b = cos a"
  shows "wrapAngle (segmentAngle 12) b = wrapAngle (segmentAngle 12) a"
proof -
  obtain n :: int where n: "b = a + 2 * pi * of_int n"
    using assms sin_cos_eq_iff [of b a] by blast
  have "b = a + 2 * of_int (6 * n) * segmentAngle 12"
    by (simp add: n segmentAngle_12)
  then show ?thesis
    using wrapAngle_shift [OF segmentAngle_pos, of 12 a "6 * n"] by simp
qed

lemma mainUv_mirrorImage:
  "mainUv u 12 1 (mirrorImage 12 k uv) = mainUv u 12 1 uv"
proof (cases "fst uv - 0.5 = 0 \<and> snd uv - 0.5 = 0")
  case True
  then have f: "fst uv = 0.5" "snd uv = 0.5" by simp_all
  have "mirrorImage 12 k uv = (0.5, 0.5)"
    by (simp add: mirrorImage_def Let_def f)
  moreover have "uv = (0.5, 0.5)"
    by (simp add: prod_eq_iff f)
  ultimately show ?thesis by simp
next
  case False
  then obtain r a where r: "0 < r" and a: "- pi < a" "a \<le> pi"
    and c: "fst uv - 0.5 = r * cos a" "snd uv - 0.5 = r * sin a"
    using polar_form [of "fst uv - 0.5" "snd uv - 0.5"] by blast
  define phi where "phi = of_int k * (2 * pi / 12)"
  obtain b where b: "- pi < b" "b \<le> pi"
    and sb: "sin b = sin (2 * phi - a)" and cb: "cos b = cos (2 * phi - a)"
    using sincos_principal_value [of "2 * phi - a"] by blast
  have uv: "uv = (0.5 + r * cos a, 0.5 + r * sin a)"
    using c by (simp add: prod_eq_iff)
  have "mirrorImage 12 k uv =
          (0.5 + (r * cos a * cos (2 * phi) + r * sin a * sin (2 * phi)),
           0.5 + (r * cos a * sin (2 * phi) - r * sin a * cos (2 * phi)))"
    unfolding mirrorImage_def Let_def phi_def c ..
  also have "\<dots> = (0.5 + r * cos (2 * phi - a), 0.5 + r * sin (2 * phi - a))"
    by (simp add: cos_diff sin_diff algebra_simps)
  also have "\<dots> = (0.5 + r * cos b, 0.5 + r * sin b)"
    by (simp only: sb cb)
  finally have m: "mirrorImage 12 k uv = (0.5 + r * cos b, 0.5 + r * sin b)" .
  have e: "2 * phi - a = 2 * of_int k * segmentAngle 12 - a"
    by (simp add: phi_def segmentAngle_def)
  have "wrapAngle (segmentAngle 12) (2 * phi - a) = wrapAngle (segmentAngle 12) a"
    unfolding e by (rule wrapAngle_mirror [OF segmentAngle_pos]) simp
  moreover have "wrapAngle (segmentAngle 12) b = wrapAngle (segmentAngle 12) (2 * phi - a)"
    by (rule wrapAngle_same_direction [OF sb cb])
  ultimately have w: "wrapAngle (segmentAngle 12) b = wrapAngle (segmentAngle 12) a"
    by simp
  show ?thesis
    unfolding m mainUv_polar [OF r b] w
    by (subst uv, simp only: mainUv_polar [OF r a])
qed

section \<open>The aspect uniform and the fold with special values\<close>

lemma update_height_zero: "update width 0 = (if width = 0 then NaN else PInf)"
  by (simp add: update_def)

lemma update_positive_height: "0 < height \<Longrightarrow> update width height = Fin (real width / real height)"
  by (simp add: update_def)

lemma n_mul_NaN [simp]: "n_mul c NaN = NaN"
  by (cases c) simp_all

lemma n_add_NaN [simp]: "n_add c NaN = NaN"
  by (cases c) simp_all

lemma n_div_mul_PInf:
  assumes "radius = NaN \<or> radius = PInf"
  shows "n_div (n_mul c radius) PInf = NaN"
  using assms by (cases c) auto

lemma n_length_PInf:
  "n_length (n_mul (Fin cx) PInf, Fin cy) = NaN \<or> n_length (n_mul (Fin cx) PInf, Fin cy) = PInf"
  by (simp add: n_length_def)

lemma n_mainUv_PInf: "fst (n_mainUv u segments PInf (Fin x, Fin y)) = NaN"
proof -
  define radius where "radius = n_length (n_mul (Fin (x - 0.5)) PInf, Fin (y - 0.5))"
  have "n_div (n_mul c radius) PInf = NaN" for c
    unfolding radius_def by (rule n_div_mul_PInf [OF n_length_PInf])
  then show ?thesis
    by (simp add: n_mainUv_def n_aspect_correction_def n_reverse_aspect_correction_def
        n_sub_def Let_def radius_def)
qed

lemma n_mainUv_NaN: "n_mainUv u segments NaN (Fin x, Fin y) = (NaN, NaN)"
  by (simp add: n_mainUv_def n_aspect_correction_def n_reverse_aspect_correction_def
      n_sub_def n_length_def Let_def)

subsection \<open>On finite values the two models of the shader agree\<close>

lemma n_aspect_correction_Fin:
  assumes "a \<noteq> 0"
  shows "n_aspect_correction (Fin a) (Fin p, Fin q) =
           (Fin (fst (aspect_correction a (p, q))), Fin (snd (aspect_correction a (p, q))))"
  using assms by (simp add: n_aspect_correction_def aspect_correction_def)

lemma n_reverse_aspect_correction_Fin:
  assumes "a \<noteq> 0"
  shows "n_reverse_aspect_correction (Fin a) (Fin p, Fin q) =
           (Fin (fst (reverse_aspect_correction a (p, q))),
            Fin (snd (reverse_aspect_correction a (p, q))))"
  using assms by (simp add: n_reverse_aspect_correction_def reverse_aspect_correction_def)

lemma n_length_Fin: "n_length (Fin p, Fin q) = Fin (glsl_length (p, q))"
proof -
  have "\<not> p * p + q * q < 0"
    by (simp add: not_less)
  then show ?thesis
    by (simp add: n_length_def glsl_length_def)
qed

lemma n_atan_Fin: "n_atan (Fin u) (Fin y) (Fin x) = Fin (glsl_atan u y x)"
  by (simp add: glsl_atan_def)

lemma n_segmentAngle_Fin:
  "segments \<noteq> 0 \<Longrightarrow> n_segmentAngle (Fin segments) = Fin (segmentAngle segments)"
  by (simp add: n_segmentAngle_def segmentAngle_def)

lemma n_wrapAngle_Fin:
  assumes "s \<noteq> 0"
  shows "n_wrapAngle (Fin s) (Fin a) = Fin (wrapAngle s a)"
  using assms by (simp add: n_wrapAngle_def wrapAngle_def n_mod_def glsl_mod_def n_sub_def Let_def)

lemma n_mainUv_Fin:
  assumes "aspect \<noteq> 0" and "segments \<noteq> 0"
  shows "n_mainUv (Fin u) (Fin segments) (Fin aspect) (Fin x, Fin y) =
           (Fin (fst (mainUv u segments aspect (x, y))),
            Fin (snd (mainUv u segments aspect (x, y))))"
proof -
  have s: "segmentAngle segments \<noteq> 0"
    using assms(2) by (simp add: segmentAngle_def)
  show ?thesis
    by (simp add: n_mainUv_def mainUv_def Let_def n_sub_def
        n_aspect_correction_Fin [OF assms(1)] n_length_Fin n_atan_Fin
        n_segmentAngle_Fin [OF assms(2)] n_wrapAngle_Fin [OF s]
        n_reverse_aspect_correction_Fin [OF assms(1)] del: n_atan.simps)
qed


subsection \<open>The centre and the undefined \<open>atan(0, 0)\<close>\<close>

lemma n_wrapAngle_not_finite:
  assumes "0 < s" and "u = NaN \<or> u = PInf \<or> u = NInf"
  shows "n_wrapAngle (Fin s) u = NaN"
  using assms by (auto simp add: n_wrapAngle_def n_mod_def n_sub_def Let_def)

lemma n_mainUv_center_not_finite:
  assumes "0 < aspect" and "0 < segments" and "u = NaN \<or> u = PInf \<or> u = NInf"
  shows "n_mainUv u (Fin segments) (Fin aspect) (Fin 0.5, Fin 0.5) = (NaN, NaN)"
proof -
  have w: "n_wrapAngle (Fin (segmentAngle segments)) u = NaN"
    by (rule n_wrapAngle_not_finite [OF segmentAngle_pos [OF assms(2)] assms(3)])
  have s: "n_segmentAngle (Fin segments) = Fin (segmentAngle segments)"
    using assms(2) by (intro n_segmentAngle_Fin) simp
  show ?thesis
    using assms(1)
    by (simp add: n_mainUv_def Let_def n_sub_def n_aspect_correction_def
        n_reverse_aspect_correction_def n_length_def s w)
qed

lemma n_mainUv_center_finite:
  assumes "0 < aspect" and "0 < segments"
  shows "n_mainUv (Fin v) (Fin segments) (Fin aspect) (Fin 0.5, Fin 0.5) = (Fin 0.5, Fin 0.5)"
proof -
  have "aspect \<noteq> 0" "segments \<noteq> 0" using assms by simp_all
  then show ?thesis
    unfolding n_mainUv_Fin [OF \<open>aspect \<noteq> 0\<close> \<open>segments \<noteq> 0\<close>] mainUv_center by simp
qed

subsection \<open>Mirror images, whatever \<open>atan(0, 0)\<close> is\<close>

lemma n_mainUv_off_centre:
  assumes "x \<noteq> 0.5 \<or> y \<noteq> 0.5"
  shows "n_mainUv u (Fin 12) (Fin 1) (Fin x, Fin y) =
           (Fin (fst (mainUv 0 12 1 (x, y))), Fin (snd (mainUv 0 12 1 (x, y))))"
proof -
  have "n_mainUv u (Fin 12) (Fin 1) (Fin x, Fin y) = n_mainUv (Fin 0) (Fin 12) (Fin 1) (Fin x, Fin y)"
    using assms
    by (auto simp add: n_mainUv_def Let_def n_sub_def n_aspect_correction_def)
  then show ?thesis
    by (simp add: n_mainUv_Fin)
qed

lemma mirrorImage_twice: "mirrorImage segments k (mirrorImage segments k uv) = uv"
proof -
  define C where "C = cos (2 * (of_int k * (2 * pi / segments)))"
  define S where "S = sin (2 * (of_int k * (2 * pi / segments)))"
  have e: "C * C + S * S = 1"
    unfolding C_def S_def by (rule sin_cos_squared_add3)
  have "fst uv - 0.5 = (fst uv - 0.5) * (C * C + S * S)"
    "snd uv - 0.5 = (snd uv - 0.5) * (C * C + S * S)"
    by (simp_all add: e)
  then have "((fst uv - 0.5) * C + (snd uv - 0.5) * S) * C
        + ((fst uv - 0.5) * S - (snd uv - 0.5) * C) * S = fst uv - 0.5"
    "((fst uv - 0.5) * C + (snd uv - 0.5) * S) * S
        - ((fst uv - 0.5) * S - (snd uv - 0.5) * C) * C = snd uv - 0.5"
    by (simp_all add: algebra_simps)
  then show ?thesis
    by (simp add: mirrorImage_def Let_def prod_eq_iff C_def S_def)
qed

lemma mirrorImage_center: "mirrorImage segments k (0.5, 0.5) = (0.5, 0.5)"
  by (simp add: mirrorImage_def Let_def)

lemma n_mainUv_mirrorImage:
  "n_mainUv u (Fin 12) (Fin 1)
     (Fin (fst (mirrorImage 12 k uv)), Fin (snd (mirrorImage 12 k uv)))
   = n_mainUv u (Fin 12) (Fin 1) (Fin (fst uv), Fin (snd uv))"
proof (cases "uv = (0.5, 0.5)")
  case True
  show ?thesis
    unfolding True mirrorImage_center by simp
next
  case False
  then have 1: "fst uv \<noteq> 0.5 \<or> snd uv \<noteq> 0.5"
    by (auto simp add: prod_eq_iff)
  have "mirrorImage 12 k uv \<noteq> (0.5, 0.5)"
  proof
    assume h: "mirrorImage 12 k uv = (0.5, 0.5)"
    have "mirrorImage 12 k (mirrorImage 12 k uv) = (0.5, 0.5)"
      unfolding h by (rule mirrorImage_center)
    then have "uv = (0.5, 0.5)"
      unfolding mirrorImage_twice .
    with False show False ..
  qed
  then have 2: "fst (mirrorImage 12 k uv) \<noteq> 0.5 \<or> snd (mirrorImage 12 k uv) \<noteq> 0.5"
    by (auto simp add: prod_eq_iff)
  show ?thesis
    unfolding n_mainUv_off_centre [OF 1] n_mainUv_off_centre [OF 2]
    by (simp add: mainUv_mirrorImage)
qed

lemma mainUv_right: "mainUv u 12 1 (0.75, 0.5) = (0.75, 0.5)"
proof -
  have p: "0 < segmentAngle 12"
    by (rule segmentAngle_pos) simp
  have "wrapAngle (segmentAngle 12) 0 = 0"
    by (rule wrapAngle_small [OF p]) (simp_all add: segmentAngle_def)
  moreover have "mainUv u 12 1 (0.5 + 1 / 4 * cos 0, 0.5 + 1 / 4 * sin 0) =
           (0.5 + 1 / 4 * cos (wrapAngle (segmentAngle 12) 0),
            0.5 + 1 / 4 * sin (wrapAngle (segmentAngle 12) 0))"
    by (rule mainUv_polar) simp_all
  ultimately show ?thesis by simp
qed

text \<open>
  GLSL leaves \<open>atan(0, 0)\<close> undefined, and the shader calls it at the centre, where the
  radius is 0. When it returns NaN, the angle, its cosine and the product with the radius
  are NaN, and the centre does not map to \<open>(0.5, 0.5)\<close>.
\<close>

theorem center_not_fixed:
  "n_mainUv NaN (Fin 12) (Fin 1) (Fin 0.5, Fin 0.5) \<noteq> (Fin 0.5, Fin 0.5)"
proof -
  have "n_mainUv NaN (Fin 12) (Fin 1) (Fin 0.5, Fin 0.5) = (NaN, NaN)"
    by (rule n_mainUv_center_not_finite) simp_all
  then show ?thesis by simp
qed

text \<open>
  C2, amended. With aspect 1 and 12 segments, for every \<open>uv\<close> and every \<open>k\<close>, folding \<open>uv\<close> and
  folding its mirror image across the wedge boundary at angle \<open>k * (2 * \<pi> / 12)\<close> about the
  centre give the same output, on finite values and, with special values, whatever
  \<open>atan(0, 0)\<close> returns. For every aspect above 0 and every segment count from 2, the centre
  \<open>(0.5, 0.5)\<close> maps to exactly \<open>(0.5, 0.5)\<close> when \<open>atan(0, 0)\<close> returns a finite number; when
  it returns NaN or an infinity, the centre maps to \<open>(NaN, NaN)\<close>.
\<close>

theorem mainUv_mirror:
  fixes v aspect segments :: real and u :: number and k :: int and uv :: "real \<times> real"
  shows "mainUv v 12 1 (mirrorImage 12 k uv) = mainUv v 12 1 uv
         \<and> n_mainUv u (Fin 12) (Fin 1)
              (Fin (fst (mirrorImage 12 k uv)), Fin (snd (mirrorImage 12 k uv)))
             = n_mainUv u (Fin 12) (Fin 1) (Fin (fst uv), Fin (snd uv))
         \<and> (0 < aspect \<and> 2 \<le> segments \<longrightarrow>
              mainUv v segments aspect (0.5, 0.5) = (0.5, 0.5)
              \<and> n_mainUv (Fin v) (Fin segments) (Fin aspect) (Fin 0.5, Fin 0.5)
                  = (Fin 0.5, Fin 0.5)
              \<and> (u = NaN \<or> u = PInf \<or> u = NInf \<longrightarrow>
                    n_mainUv u (Fin segments) (Fin aspect) (Fin 0.5, Fin 0.5) = (NaN, NaN)))"
proof -
  have "n_mainUv (Fin v) (Fin segments) (Fin aspect) (Fin 0.5, Fin 0.5) = (Fin 0.5, Fin 0.5)"
    if "0 < aspect" "2 \<le> segments"
    using that by (intro n_mainUv_center_finite) simp_all
  moreover have "n_mainUv u (Fin segments) (Fin aspect) (Fin 0.5, Fin 0.5) = (NaN, NaN)"
    if "0 < aspect" "2 \<le> segments" "u = NaN \<or> u = PInf \<or> u = NInf"
    using that by (intro n_mainUv_center_not_finite) simp_all
  ultimately show ?thesis
    using mainUv_mirrorImage [of v k uv] n_mainUv_mirrorImage [of u k uv]
      mainUv_center [of v segments aspect]
    by blast
qed

theorem mainUv_mirror_witness:
  "mirrorImage 12 1 (0.75, 0.5) = (0.625, 0.5 + sqrt 3 / 8)
   \<and> mainUv 0 12 1 (0.75, 0.5) = (0.75, 0.5)
   \<and> mainUv 0 12 1 (0.625, 0.5 + sqrt 3 / 8) = (0.75, 0.5)
   \<and> (0::real) < 16 / 9 \<and> (2::real) \<le> 12
   \<and> mainUv 0 12 (16 / 9) (0.5, 0.5) = (0.5, 0.5)
   \<and> n_mainUv (Fin 0) (Fin 12) (Fin (16 / 9)) (Fin 0.5, Fin 0.5) = (Fin 0.5, Fin 0.5)
   \<and> n_mainUv NaN (Fin 12) (Fin (16 / 9)) (Fin 0.5, Fin 0.5) = (NaN, NaN)"
proof -
  have "2 * (of_int 1 * (2 * pi / 12)) = pi / 3"
    by simp
  then have m: "mirrorImage 12 1 (0.75, 0.5) = (0.625, 0.5 + sqrt 3 / 8)"
    by (simp add: mirrorImage_def Let_def cos_60 sin_60)
  note t = mainUv_mirror [where v = 0 and k = 1 and uv = "(0.75, 0.5)" and u = NaN
      and aspect = "16 / 9" and segments = 12]
  have "mainUv 0 12 1 (0.625, 0.5 + sqrt 3 / 8) = (0.75, 0.5)"
    using t unfolding m mainUv_right by blast
  then show ?thesis
    using t m mainUv_right [of 0] by simp
qed

text \<open>
  A canvas of 800 by 0 pixels: the aspect is \<open>800 / 0\<close>, which is \<open>+Infinity\<close> and not 1, and
  the fold of \<open>(0.75, 0.5)\<close> with 12 segments is not the fold with aspect 1.
\<close>

theorem zero_height_fold_differs:
  "n_mainUv (Fin 0) (Fin 12) (update 800 0) (Fin 0.75, Fin 0.5)
   \<noteq> n_mainUv (Fin 0) (Fin 12) (Fin 1) (Fin 0.75, Fin 0.5)"
proof -
  have "fst (n_mainUv (Fin 0) (Fin 12) (update 800 0) (Fin 0.75, Fin 0.5)) = NaN"
    by (simp add: update_height_zero n_mainUv_PInf)
  moreover have "fst (n_mainUv (Fin 0) (Fin 12) (Fin 1) (Fin 0.75, Fin 0.5)) \<noteq> NaN"
    by (simp add: n_mainUv_Fin)
  ultimately show ?thesis by metis
qed

text \<open>
  C1, amended. With a viewport of height zero \<open>update\<close> does not fault, but it does not set
  the aspect to 1 either: the division gives \<open>+Infinity\<close> for a positive width and NaN for
  width zero. With that aspect the fold returns NaN as the x coordinate (for NaN, as both
  coordinates) for every finite \<open>uv\<close> and every segment count, not the output for aspect 1.
  With a positive width and height the aspect is \<open>width / height\<close>, the fold is the one on
  finite values, and the aspect is 1 for a square viewport.
\<close>

theorem update_zero_height:
  fixes x y v seg :: real and width height :: nat
  shows "(0 < width \<longrightarrow>
            update width 0 = PInf
            \<and> fst (n_mainUv u segments (update width 0) (Fin x, Fin y)) = NaN)
         \<and> update 0 0 = NaN
         \<and> n_mainUv u segments (update 0 0) (Fin x, Fin y) = (NaN, NaN)
         \<and> (0 < width \<and> 0 < height \<and> 2 \<le> seg \<longrightarrow>
              update width height = Fin (real width / real height)
              \<and> n_mainUv (Fin v) (Fin seg) (update width height) (Fin x, Fin y) =
                  (Fin (fst (mainUv v seg (real width / real height) (x, y))),
                   Fin (snd (mainUv v seg (real width / real height) (x, y)))))
         \<and> (0 < width \<longrightarrow> update width width = Fin 1)"
proof -
  have "n_mainUv (Fin v) (Fin seg) (update width height) (Fin x, Fin y) =
                  (Fin (fst (mainUv v seg (real width / real height) (x, y))),
                   Fin (snd (mainUv v seg (real width / real height) (x, y))))"
    if "0 < width" "0 < height" "2 \<le> seg"
    unfolding update_positive_height [OF that(2)]
    using that by (intro n_mainUv_Fin) simp_all
  then show ?thesis
    by (simp add: update_height_zero n_mainUv_PInf n_mainUv_NaN update_positive_height)
qed

theorem update_zero_height_witness:
  "(0::nat) < 800 \<and> update 800 0 = PInf
   \<and> fst (n_mainUv (Fin 0) (Fin 12) (update 800 0) (Fin 0.25, Fin 0.75)) = NaN
   \<and> (0::nat) < 600 \<and> (2::real) \<le> 12
   \<and> update 800 600 = Fin (4 / 3)
   \<and> n_mainUv (Fin 0) (Fin 12) (update 800 600) (Fin 0.25, Fin 0.75) =
        (Fin (fst (mainUv 0 12 (4 / 3) (0.25, 0.75))),
         Fin (snd (mainUv 0 12 (4 / 3) (0.25, 0.75))))
   \<and> update 800 800 = Fin 1"
  using update_zero_height [where width = 800 and height = 600 and seg = 12 and v = 0
      and u = "Fin 0" and segments = "Fin 12" and x = "0.25" and y = "0.75"]
  by (simp add: update_def)

end
